theory Spec2Isabelle
  imports Main "HOL-Library.Sublist"
begin

section \<open>Review pipeline of inferringAndExpanding.py\<close>

text \<open>
  The program reads a text file of product reviews, parses each review, asks a remote
  chat model three questions per review and writes the rows to a CSV file. The model
  below follows \<^verbatim>\<open>src/inferringAndExpanding.py\<close> function by function.

  Python strings are modelled as \<^typ>\<open>string\<close>. The character classes used by
  \<^verbatim>\<open>str.strip\<close> and \<^verbatim>\<open>str.lower\<close> are those of the ASCII range: characters outside
  that range are neither whitespace nor letters in the model.
\<close>

subsection \<open>Exceptions\<close>

text \<open>Every exception carries the text that \<^verbatim>\<open>str(e)\<close> yields.\<close>

datatype exn =
    ValueError string
  | IndexError string
  | OSError string
  | RemoteError string

fun str_exn :: "exn \<Rightarrow> string" where
  "str_exn (ValueError m) = m"
| "str_exn (IndexError m) = m"
| "str_exn (OSError m) = m"
| "str_exn (RemoteError m) = m"

subsection \<open>String primitives of Python\<close>

text \<open>\<^verbatim>\<open>str.isspace\<close> on one ASCII character: TAB, LF, VT, FF, CR, FS, GS, RS, US, SPACE.\<close>

definition is_space :: "char \<Rightarrow> bool" where
  "is_space c = (let n = (of_char c :: nat) in (9 \<le> n \<and> n \<le> 13) \<or> (28 \<le> n \<and> n \<le> 32))"

text \<open>\<^verbatim>\<open>s.strip()\<close>: whitespace removed at both ends.\<close>

definition strip :: "string \<Rightarrow> string" where
  "strip s = rev (dropWhile is_space (rev (dropWhile is_space s)))"

text \<open>\<^verbatim>\<open>s.lower()\<close> on ASCII letters.\<close>

definition lower_char :: "char \<Rightarrow> char" where
  "lower_char c = (let n = (of_char c :: nat) in if 65 \<le> n \<and> n \<le> 90 then char_of (n + 32) else c)"

definition lower :: "string \<Rightarrow> string" where
  "lower s = map lower_char s"

text \<open>\<^verbatim>\<open>s.startswith(p)\<close>.\<close>

definition startswith :: "string \<Rightarrow> string \<Rightarrow> bool" where
  "startswith s p = prefix p s"

text \<open>
  \<^verbatim>\<open>s.split(sep, maxsplit)\<close> scans \<open>s\<close> from the left. \<open>cur\<close> is the piece collected so
  far. A negative \<open>maxsplit\<close> never reaches zero, which is Python's "no limit". The empty
  separator is rejected by \<open>py_split\<close> before the scan starts.
\<close>

function split_from :: "string \<Rightarrow> int \<Rightarrow> string \<Rightarrow> string \<Rightarrow> string list" where
  "split_from sep maxsplit cur s =
     (if s = [] \<or> maxsplit = 0 \<or> sep = [] then [cur @ s]
      else if prefix sep s then cur # split_from sep (maxsplit - 1) [] (drop (length sep) s)
      else split_from sep maxsplit (cur @ [hd s]) (tl s))"
  by pat_completeness auto
termination
  by (relation "measure (\<lambda>(sep, maxsplit, cur, s). length s)") auto

declare split_from.simps [simp del]

definition py_split :: "string \<Rightarrow> string \<Rightarrow> int \<Rightarrow> exn + string list" where
  "py_split s sep maxsplit =
     (if sep = [] then Inl (ValueError ''empty separator'')
      else Inr (split_from sep maxsplit [] s))"

text \<open>\<^verbatim>\<open>xs[i]\<close> for a non-negative index: IndexError out of range.\<close>

definition py_index :: "'a list \<Rightarrow> nat \<Rightarrow> exn + 'a" where
  "py_index xs i = (if i < length xs then Inr (xs ! i) else Inl (IndexError ''list index out of range''))"

text \<open>\<^verbatim>\<open>sep.join(xs)\<close>, used to state what a split is.\<close>

fun join :: "string \<Rightarrow> string list \<Rightarrow> string" where
  "join sep [] = []"
| "join sep [x] = x"
| "join sep (x # y # ys) = x @ sep @ join sep (y # ys)"

subsection \<open>extract\_review\_info\<close>

text \<open>
  \<^verbatim>\<open>line.split(":", 1)[1].strip()\<close>: the split and the index can both raise in Python,
  so both are branches here.
\<close>

definition after_colon :: "string \<Rightarrow> exn + string" where
  "after_colon line =
     (case py_split line '':'' 1 of
        Inl e \<Rightarrow> Inl e
      | Inr parts \<Rightarrow> (case py_index parts 1 of Inl e \<Rightarrow> Inl e | Inr v \<Rightarrow> Inr (strip v)))"

text \<open>The \<^verbatim>\<open>for line in ...\<close> loop, with the two local variables as arguments.\<close>

fun extract_loop :: "string list \<Rightarrow> string \<Rightarrow> string \<Rightarrow> exn + string \<times> string" where
  "extract_loop [] product review_text = Inr (product, review_text)"
| "extract_loop (line # lines) product review_text =
     (if startswith line ''Product:'' then
        (case after_colon line of
           Inl e \<Rightarrow> Inl e
         | Inr v \<Rightarrow> extract_loop lines v review_text)
      else if startswith line ''Review:'' then
        (case after_colon line of
           Inl e \<Rightarrow> Inl e
         | Inr v \<Rightarrow> extract_loop lines product v)
      else extract_loop lines product review_text)"

definition extract_review_info :: "string \<Rightarrow> exn + string \<times> string" where
  "extract_review_info review =
     (case py_split review [CHR 0x0A] (-1) of
        Inl e \<Rightarrow> Inl e
      | Inr lines \<Rightarrow> extract_loop lines [] [])"

subsection \<open>The world outside the program\<close>

text \<open>
  What the program reads and changes: the process environment, the entries of the
  \<^verbatim>\<open>.env\<close> file, the readable files, the CSV files it writes, the history of the chat
  session, the seconds spent in \<^verbatim>\<open>time.sleep\<close> and the lines printed.

  \<open>files\<close> gives what \<^verbatim>\<open>open(path, 'r')\<close> followed by \<^verbatim>\<open>read()\<close> yields: the text, or
  the exception raised. \<open>open_w\<close> gives the exception that \<^verbatim>\<open>open(path, 'w')\<close> raises,
  if any. A CSV file is kept as the list of rows handed to \<^verbatim>\<open>csv.writer\<close>; how the
  library quotes and terminates a row is not part of this program.
\<close>

record world =
  environ :: "string \<rightharpoonup> string"
  dotenv :: "string \<rightharpoonup> string"
  files :: "string \<Rightarrow> exn + string"
  open_w :: "string \<Rightarrow> exn option"
  written :: "string \<rightharpoonup> string list list"
  history :: "(string \<times> string) list"
  slept :: nat
  stdout :: "string list"

text \<open>
  The remote model: from the history of the session and the prompt to the text of the
  reply, or to the exception that \<^verbatim>\<open>send_message\<close> or \<^verbatim>\<open>.text\<close> raises.
\<close>

type_synonym remote = "(string \<times> string) list \<Rightarrow> string \<Rightarrow> exn + string"

text \<open>\<^verbatim>\<open>chat_session.send_message(prompt).text\<close>: one exchange, recorded in the history.\<close>

definition send_message :: "remote \<Rightarrow> string \<Rightarrow> world \<Rightarrow> (exn + string) \<times> world" where
  "send_message gemini prompt w =
     (case gemini (history w) prompt of
        Inl e \<Rightarrow> (Inl e, w)
      | Inr text \<Rightarrow> (Inr text, w\<lparr>history := history w @ [(prompt, text)]\<rparr>))"

subsection \<open>read\_reviews\<close>

definition default_delimiter :: string where
  "default_delimiter = ''---END OF REVIEW---''"

definition read_reviews :: "world \<Rightarrow> string \<Rightarrow> string \<Rightarrow> exn + string list" where
  "read_reviews w file_path delimiter =
     (case files w file_path of
        Inl e \<Rightarrow> Inl e
      | Inr content \<Rightarrow>
          (case py_split content delimiter (-1) of
             Inl e \<Rightarrow> Inl e
           | Inr reviews \<Rightarrow> Inr [strip review. review \<leftarrow> reviews, strip review \<noteq> []]))"

subsection \<open>The remote calls\<close>

definition sentiment_prompt :: "string \<Rightarrow> string" where
  "sentiment_prompt review_text =
     ''Categorize the sentiment in one word of this review in Positive/Negative/Neutral: '' @ review_text"

definition reply_prompt :: "string \<Rightarrow> string \<Rightarrow> string" where
  "reply_prompt review_text sentiment =
     ''Add a 40 words reply to this review: '' @ review_text @ '' as per sentiment '' @ sentiment"

definition product_prompt :: "string \<Rightarrow> string" where
  "product_prompt review_text =
     ''Guess the product name based on this review in one word: '' @ review_text"

definition analyze_sentiment ::
  "remote \<Rightarrow> string \<Rightarrow> world \<Rightarrow> (exn + string \<times> string) \<times> world" where
  "analyze_sentiment gemini review_text w =
     (case send_message gemini (sentiment_prompt review_text) w of
        (Inl e, w1) \<Rightarrow> (Inl e, w1)
      | (Inr sentiment_response, w1) \<Rightarrow>
          (let sentiment = lower sentiment_response in
           case send_message gemini (reply_prompt review_text sentiment) w1 of
             (Inl e, w2) \<Rightarrow> (Inl e, w2)
           | (Inr reply, w2) \<Rightarrow> (Inr (sentiment, reply), w2)))"

definition guess_product :: "remote \<Rightarrow> string \<Rightarrow> world \<Rightarrow> (exn + string) \<times> world" where
  "guess_product gemini review_text w =
     (case send_message gemini (product_prompt review_text) w of
        (Inl e, w1) \<Rightarrow> (Inl e, w1)
      | (Inr product_response, w1) \<Rightarrow> (Inr (strip product_response), w1))"

subsection \<open>save\_to\_csv\<close>

definition csv_header :: "string list" where
  "csv_header = [''Original Product'', ''Guessed Product'', ''Review'', ''Sentiment'', ''Reply'']"

text \<open>
  Opening with mode \<^verbatim>\<open>'w'\<close> truncates: whatever \<open>written w csv_file\<close> held is replaced by
  the header row followed by the data rows.
\<close>

definition save_to_csv :: "string list list \<Rightarrow> string \<Rightarrow> world \<Rightarrow> (exn + unit) \<times> world" where
  "save_to_csv data csv_file w =
     (case open_w w csv_file of
        Some e \<Rightarrow> (Inl e, w)
      | None \<Rightarrow> (Inr (), w\<lparr>written := (written w)(csv_file \<mapsto> csv_header # data)\<rparr>))"

subsection \<open>process\_reviews\<close>

text \<open>The body of the \<^verbatim>\<open>for review in reviews\<close> loop: it returns the extended list.\<close>

definition loop_body ::
  "remote \<Rightarrow> string \<Rightarrow> string list list \<Rightarrow> world \<Rightarrow> (exn + string list list) \<times> world" where
  "loop_body gemini review data w =
     (case extract_review_info review of
        Inl e \<Rightarrow> (Inl e, w)
      | Inr (original_product, review_text) \<Rightarrow>
          (case guess_product gemini review_text w of
             (Inl e, w1) \<Rightarrow> (Inl e, w1)
           | (Inr guessed_product, w1) \<Rightarrow>
               (case analyze_sentiment gemini review_text w1 of
                  (Inl e, w2) \<Rightarrow> (Inl e, w2)
                | (Inr (sentiment, reply), w2) \<Rightarrow>
                    (Inr (data @ [[original_product, guessed_product, review_text, sentiment, reply]]),
                     w2\<lparr>slept := slept w2 + 2\<rparr>))))"

fun for_reviews ::
  "remote \<Rightarrow> string list \<Rightarrow> string list list \<Rightarrow> world \<Rightarrow> (exn + string list list) \<times> world" where
  "for_reviews gemini [] data w = (Inr data, w)"
| "for_reviews gemini (review # reviews) data w =
     (case loop_body gemini review data w of
        (Inl e, w') \<Rightarrow> (Inl e, w')
      | (Inr data', w') \<Rightarrow> for_reviews gemini reviews data' w')"

definition process_reviews ::
  "remote \<Rightarrow> string \<Rightarrow> string \<Rightarrow> string \<Rightarrow> world \<Rightarrow> (exn + unit) \<times> world" where
  "process_reviews gemini file_path csv_file delimiter w =
     (case read_reviews w file_path delimiter of
        Inl e \<Rightarrow> (Inl e, w)
      | Inr reviews \<Rightarrow>
          (case for_reviews gemini reviews [] w of
             (Inl e, w') \<Rightarrow> (Inl e, w')
           | (Inr data, w') \<Rightarrow> save_to_csv data csv_file w'))"

subsection \<open>main\<close>

text \<open>
  \<^verbatim>\<open>load_dotenv()\<close> adds the entries of the \<^verbatim>\<open>.env\<close> file to the environment; a variable
  that is already set keeps its value.
\<close>

definition load_dotenv :: "world \<Rightarrow> world" where
  "load_dotenv w = w\<lparr>environ := dotenv w ++ environ w\<rparr>"

definition reviews_path :: string where
  "reviews_path =
     ''C:'' @ [CHR 0x5C] @ ''Users'' @ [CHR 0x5C] @ ''Suresh'' @ [CHR 0x5C] @ ''Desktop'' @ [CHR 0x5C]
       @ ''pythonBl'' @ [CHR 0x5C] @ ''Generative_AI'' @ [CHR 0x5C] @ ''reviews.txt''"

definition csv_path :: string where
  "csv_path = ''transformed_reviews.csv''"

text \<open>
  The \<^verbatim>\<open>try\<close> block of \<^verbatim>\<open>main\<close>. \<^verbatim>\<open>not api_key\<close> holds for \<^verbatim>\<open>None\<close> and for the empty
  string. \<^verbatim>\<open>start_chat(history=[])\<close> opens the session with an empty history.
\<close>

definition main_try :: "remote \<Rightarrow> world \<Rightarrow> (exn + unit) \<times> world" where
  "main_try gemini w0 =
     (let w = load_dotenv w0;
          api_key = environ w ''GEMINI_API_KEY''
      in if api_key = None \<or> api_key = Some [] then
           (Inl (ValueError ''API key not found in environment variables.''), w)
         else
           process_reviews gemini reviews_path csv_path default_delimiter (w\<lparr>history := []\<rparr>))"

text \<open>\<^verbatim>\<open>except Exception as e: print(...)\<close>.\<close>

definition main :: "remote \<Rightarrow> world \<Rightarrow> world" where
  "main gemini w0 =
     (case main_try gemini w0 of
        (Inl e, w) \<Rightarrow> w\<lparr>stdout := stdout w @ [''An error occurred: '' @ str_exn e]\<rparr>
      | (Inr u, w) \<Rightarrow> w)"

subsection \<open>Notions used to state the properties\<close>

text \<open>The text after the first colon of a line.\<close>

definition text_after_first_colon :: "string \<Rightarrow> string" where
  "text_after_first_colon line = tl (dropWhile (\<lambda>c. c \<noteq> CHR '':'') line)"

text \<open>The lines of a text: the pieces between line feeds.\<close>

primrec lines_of :: "string \<Rightarrow> string list" where
  "lines_of [] = [[]]"
| "lines_of (c # cs) =
     (if c = CHR 0x0A then [] # lines_of cs
      else (case lines_of cs of [] \<Rightarrow> [[c]] | l # ls \<Rightarrow> (c # l) # ls))"

text \<open>
  One step of the line scan as the specification words it: a \<^verbatim>\<open>Product:\<close> line sets the
  first field, a \<^verbatim>\<open>Review:\<close> line the second, any other line changes nothing.
\<close>

definition scan_line :: "string \<times> string \<Rightarrow> string \<Rightarrow> string \<times> string" where
  "scan_line found line =
     (if startswith line ''Product:'' then (strip (text_after_first_colon line), snd found)
      else if startswith line ''Review:'' then (fst found, strip (text_after_first_colon line))
      else found)"

subsection \<open>Sample inputs\<close>

definition review_no_product :: string where
  "review_no_product = ''Note: x'' @ [CHR 0x0A] @ ''Review: fine ''"

definition review_twice :: string where
  "review_twice = ''Product: A'' @ [CHR 0x0A] @ ''Product: B '' @ [CHR 0x0A] @ ''Review: x'' @ [CHR 0x0A] @ ''Review:y''"

definition demo_content :: string where
  "demo_content =
     ''Product: Toaster'' @ [CHR 0x0A] @ ''Review: Works great'' @ [CHR 0x0A]
     @ ''---END OF REVIEW---'' @ [CHR 0x0A]
     @ ''Product: Mug'' @ [CHR 0x0A] @ ''Review: Broke fast'' @ [CHR 0x0A]"

definition demo_review :: string where
  "demo_review = ''Product: Toaster'' @ [CHR 0x0A] @ ''Review: Works great''"

definition demo_review2 :: string where
  "demo_review2 = ''Product: Mug'' @ [CHR 0x0A] @ ''Review: Broke fast''"

definition midline_before :: string where
  "midline_before = ''Product: Pen'' @ [CHR 0x0A] @ ''Review: fine ''"

definition midline_after :: string where
  "midline_after = '' really good'' @ [CHR 0x0A]"

definition midline_content :: string where
  "midline_content = midline_before @ ''---END OF REVIEW---'' @ midline_after"

definition demo_gemini :: remote where
  "demo_gemini h prompt =
     (if startswith prompt ''Guess'' then Inr '' Toaster ''
      else if startswith prompt ''Categorize'' then Inr ''Positive''
      else Inr ''Thank you!'')"

definition failing_gemini :: remote where
  "failing_gemini h prompt =
     (if 3 \<le> length h then Inl (RemoteError ''quota exceeded'') else demo_gemini h prompt)"

definition demo_world :: world where
  "demo_world =
     \<lparr>environ = [''GEMINI_API_KEY'' \<mapsto> ''secret''],
      dotenv = Map.empty,
      files = (\<lambda>path. if path = reviews_path then Inr demo_content
                       else Inl (OSError ''No such file or directory'')),
      open_w = (\<lambda>path. None),
      written = Map.empty,
      history = [],
      slept = 0,
      stdout = []\<rparr>"

definition world_no_key :: world where
  "world_no_key = demo_world\<lparr>environ := Map.empty\<rparr>"

definition world_empty_key :: world where
  "world_empty_key = demo_world\<lparr>environ := [''GEMINI_API_KEY'' \<mapsto> []]\<rparr>"

definition world_midline :: world where
  "world_midline = demo_world\<lparr>files := (\<lambda>path. Inr midline_content)\<rparr>"

definition world_old_csv :: world where
  "world_old_csv = demo_world\<lparr>written := [csv_path \<mapsto> [[''old'']]]\<rparr>"

section \<open>Properties\<close>

subsection \<open>Splitting\<close>

lemma split_from_Nil [simp]: "split_from sep n cur [] = [cur]"
  by (simp add: split_from.simps)

lemma split_from_zero [simp]: "split_from sep 0 cur s = [cur @ s]"
  by (simp add: split_from.simps)

lemma split_from_Cons:
  "sep \<noteq> [] \<Longrightarrow> n \<noteq> 0 \<Longrightarrow>
   split_from sep n cur (x # xs) =
     (if prefix sep (x # xs) then cur # split_from sep (n - 1) [] (drop (length sep) (x # xs))
      else split_from sep n (cur @ [x]) xs)"
  by (subst split_from.simps) simp

lemma split_once_char:
  "split_from [c] 1 cur s =
     (if c \<in> set s then [cur @ takeWhile (\<lambda>x. x \<noteq> c) s, tl (dropWhile (\<lambda>x. x \<noteq> c) s)]
      else [cur @ s])"
  by (induction s arbitrary: cur) (auto simp: split_from_Cons)

lemma after_colon_eq:
  "after_colon line =
     (if CHR '':'' \<in> set line then Inr (strip (text_after_first_colon line))
      else Inl (IndexError ''list index out of range''))"
  by (simp add: after_colon_def py_split_def py_index_def split_once_char text_after_first_colon_def)

lemma startswith_Product:
  assumes "startswith line ''Product:''"
  shows "CHR '':'' \<in> set line" and "text_after_first_colon line = drop 8 line"
proof -
  from assms obtain rest where l: "line = ''Product:'' @ rest"
    by (auto simp: startswith_def prefix_def)
  show "CHR '':'' \<in> set line" by (simp add: l)
  show "text_after_first_colon line = drop 8 line"
    by (simp add: l text_after_first_colon_def)
qed

lemma startswith_Review:
  assumes "startswith line ''Review:''"
  shows "CHR '':'' \<in> set line" and "text_after_first_colon line = drop 7 line"
proof -
  from assms obtain rest where l: "line = ''Review:'' @ rest"
    by (auto simp: startswith_def prefix_def)
  show "CHR '':'' \<in> set line" by (simp add: l)
  show "text_after_first_colon line = drop 7 line"
    by (simp add: l text_after_first_colon_def)
qed

lemma not_both: "startswith line ''Product:'' \<Longrightarrow> \<not> startswith line ''Review:''"
  by (auto simp: startswith_def prefix_def)


lemma lines_of_not_Nil [simp]: "lines_of s \<noteq> []"
  by (induction s) (auto split: list.splits)

lemma split_all_char:
  "n < 0 \<Longrightarrow> split_from [CHR 0x0A] n cur s = (cur @ hd (lines_of s)) # tl (lines_of s)"
proof (induction s arbitrary: cur n)
  case Nil
  then show ?case by simp
next
  case (Cons x xs)
  from Cons.prems have n: "n \<noteq> 0" "n - 1 < 0" by simp_all
  show ?case
  proof (cases "x = CHR 0x0A")
    case True
    then show ?thesis
      using Cons.IH [OF n(2), of "[]"] n(1) by (simp add: split_from_Cons)
  next
    case False
    obtain l ls where ls: "lines_of xs = l # ls"
      by (cases "lines_of xs") simp_all
    from False show ?thesis
      using Cons.IH [OF Cons.prems, of "cur @ [x]"] n(1) by (simp add: split_from_Cons ls)
  qed
qed

lemma py_split_lines: "py_split review [CHR 0x0A] (-1) = Inr (lines_of review)"
  by (simp add: py_split_def split_all_char)

lemma extract_loop_foldl:
  "extract_loop lines product review_text = Inr (foldl scan_line (product, review_text) lines)"
proof (induction lines arbitrary: product review_text)
  case Nil
  then show ?case by simp
next
  case (Cons line lines)
  show ?case
  proof (cases "startswith line ''Product:''")
    case True
    then show ?thesis
      by (simp add: Cons.IH scan_line_def after_colon_eq startswith_Product(1))
  next
    case False
    then show ?thesis
      by (simp add: Cons.IH scan_line_def after_colon_eq startswith_Review(1))
  qed
qed

lemma extract_review_info_foldl:
  "extract_review_info review = Inr (foldl scan_line ([], []) (lines_of review))"
  by (simp add: extract_review_info_def py_split_lines extract_loop_foldl)

lemma foldl_scan_no_Product:
  "\<forall>line\<in>set lines. \<not> startswith line ''Product:'' \<Longrightarrow>
   fst (foldl scan_line found lines) = fst found"
  by (induction lines arbitrary: found) (auto simp: scan_line_def)

lemma foldl_scan_no_Review:
  "\<forall>line\<in>set lines. \<not> startswith line ''Review:'' \<Longrightarrow>
   snd (foldl scan_line found lines) = snd found"
  by (induction lines arbitrary: found) (auto simp: scan_line_def)

subsection \<open>The extractor\<close>

text \<open>
  Claim C3. The extractor scans the lines of a blob in order: a line beginning with
  \<^verbatim>\<open>Product:\<close> sets the product to the trimmed text after its first colon, a line
  beginning with \<^verbatim>\<open>Review:\<close> sets the review text likewise, any other line is ignored.
  A field with no labelled line is the empty string, and the result is never an error.
\<close>

theorem extract_review_info_scans_lines:
  "extract_review_info review = Inr (foldl scan_line ([], []) (lines_of review))
   \<and> ((\<forall>line\<in>set (lines_of review). \<not> startswith line ''Product:'') \<longrightarrow>
        (\<exists>t. extract_review_info review = Inr ([], t)))
   \<and> ((\<forall>line\<in>set (lines_of review). \<not> startswith line ''Review:'') \<longrightarrow>
        (\<exists>p. extract_review_info review = Inr (p, [])))"
proof (intro conjI impI)
  show "extract_review_info review = Inr (foldl scan_line ([], []) (lines_of review))"
    by (rule extract_review_info_foldl)
next
  assume "\<forall>line\<in>set (lines_of review). \<not> startswith line ''Product:''"
  then have "fst (foldl scan_line ([], []) (lines_of review)) = []"
    by (simp add: foldl_scan_no_Product)
  then show "\<exists>t. extract_review_info review = Inr ([], t)"
    by (metis extract_review_info_foldl prod.collapse)
next
  assume "\<forall>line\<in>set (lines_of review). \<not> startswith line ''Review:''"
  then have "snd (foldl scan_line ([], []) (lines_of review)) = []"
    by (simp add: foldl_scan_no_Review)
  then show "\<exists>p. extract_review_info review = Inr (p, [])"
    by (metis extract_review_info_foldl prod.collapse)
qed

theorem extract_review_info_scans_lines_witness:
  "list_all (\<lambda>line. \<not> startswith line ''Product:'') (lines_of review_no_product)
   \<and> (\<exists>t. extract_review_info review_no_product = Inr ([], t))
   \<and> list_all (\<lambda>line. \<not> startswith line ''Review:'') (lines_of ''Product: Mug'')
   \<and> (\<exists>p. extract_review_info ''Product: Mug'' = Inr (p, []))"
proof -
  have h1: "list_all (\<lambda>line. \<not> startswith line ''Product:'') (lines_of review_no_product)"
    by code_simp
  have h2: "list_all (\<lambda>line. \<not> startswith line ''Review:'') (lines_of ''Product: Mug'')"
    by code_simp
  from h1 h2 extract_review_info_scans_lines [of review_no_product]
    extract_review_info_scans_lines [of "''Product: Mug''"]
  show ?thesis unfolding list_all_iff by blast
qed

lemma foldl_scan_last_Product:
  assumes "startswith line ''Product:''" and "\<forall>l\<in>set post. \<not> startswith l ''Product:''"
  shows "fst (foldl scan_line found (pre @ line # post)) = strip (drop 8 line)"
  using assms by (simp add: foldl_scan_no_Product scan_line_def startswith_Product(2))

lemma foldl_scan_last_Review:
  assumes "startswith line ''Review:''" and "\<forall>l\<in>set post. \<not> startswith l ''Review:''"
  shows "snd (foldl scan_line found (pre @ line # post)) = strip (drop 7 line)"
  using assms not_both [of line]
  by (auto simp: foldl_scan_no_Review scan_line_def startswith_Review(2))

text \<open>
  Claim C8. When several lines of a blob begin with \<^verbatim>\<open>Product:\<close> (or with \<^verbatim>\<open>Review:\<close>),
  the field returned is the value parsed from the last of them: a later matching line
  overwrites an earlier one.
\<close>

theorem last_matching_line_wins:
  "(py_split review [CHR 0x0A] (-1) = Inr (pre @ line # post)
      \<and> startswith line ''Product:'' \<and> (\<forall>l\<in>set post. \<not> startswith l ''Product:'')
    \<longrightarrow> (\<exists>v t. after_colon line = Inr v \<and> v = strip (drop 8 line)
               \<and> extract_review_info review = Inr (v, t)))
   \<and> (py_split review [CHR 0x0A] (-1) = Inr (pre' @ line' # post')
      \<and> startswith line' ''Review:'' \<and> (\<forall>l\<in>set post'. \<not> startswith l ''Review:'')
    \<longrightarrow> (\<exists>v p. after_colon line' = Inr v \<and> v = strip (drop 7 line')
               \<and> extract_review_info review = Inr (p, v)))"
proof (intro conjI impI)
  assume a: "py_split review [CHR 0x0A] (-1) = Inr (pre @ line # post)
      \<and> startswith line ''Product:'' \<and> (\<forall>l\<in>set post. \<not> startswith l ''Product:'')"
  then have l: "lines_of review = pre @ line # post"
    by (simp add: py_split_lines)
  have ac: "after_colon line = Inr (strip (drop 8 line))"
    using a by (simp add: after_colon_eq startswith_Product)
  have "fst (foldl scan_line ([], []) (lines_of review)) = strip (drop 8 line)"
    unfolding l using a by (intro foldl_scan_last_Product) simp_all
  then have "extract_review_info review
      = Inr (strip (drop 8 line), snd (foldl scan_line ([], []) (lines_of review)))"
    by (metis extract_review_info_foldl prod.collapse)
  with ac show "\<exists>v t. after_colon line = Inr v \<and> v = strip (drop 8 line)
               \<and> extract_review_info review = Inr (v, t)"
    by blast
next
  assume a: "py_split review [CHR 0x0A] (-1) = Inr (pre' @ line' # post')
      \<and> startswith line' ''Review:'' \<and> (\<forall>l\<in>set post'. \<not> startswith l ''Review:'')"
  then have l: "lines_of review = pre' @ line' # post'"
    by (simp add: py_split_lines)
  have ac: "after_colon line' = Inr (strip (drop 7 line'))"
    using a by (simp add: after_colon_eq startswith_Review)
  have "snd (foldl scan_line ([], []) (lines_of review)) = strip (drop 7 line')"
    unfolding l using a by (intro foldl_scan_last_Review) simp_all
  then have "extract_review_info review
      = Inr (fst (foldl scan_line ([], []) (lines_of review)), strip (drop 7 line'))"
    by (metis extract_review_info_foldl prod.collapse)
  with ac show "\<exists>v p. after_colon line' = Inr v \<and> v = strip (drop 7 line')
               \<and> extract_review_info review = Inr (p, v)"
    by blast
qed

theorem last_matching_line_wins_witness:
  "py_split review_twice [CHR 0x0A] (-1)
     = Inr ([''Product: A''] @ ''Product: B '' # [''Review: x'', ''Review:y''])
   \<and> startswith ''Product: B '' ''Product:''
   \<and> list_all (\<lambda>l. \<not> startswith l ''Product:'') [''Review: x'', ''Review:y'']
   \<and> py_split review_twice [CHR 0x0A] (-1)
     = Inr ([''Product: A'', ''Product: B '', ''Review: x''] @ ''Review:y'' # [])
   \<and> startswith ''Review:y'' ''Review:''
   \<and> (\<exists>t. extract_review_info review_twice = Inr (strip (drop 8 ''Product: B ''), t))
   \<and> (\<exists>p. extract_review_info review_twice = Inr (p, strip (drop 7 ''Review:y'')))"
proof -
  have s1: "py_split review_twice [CHR 0x0A] (-1)
      = Inr ([''Product: A''] @ ''Product: B '' # [''Review: x'', ''Review:y''])"
    by code_simp
  have s2: "py_split review_twice [CHR 0x0A] (-1)
      = Inr ([''Product: A'', ''Product: B '', ''Review: x''] @ ''Review:y'' # [])"
    by code_simp
  have p1: "startswith ''Product: B '' ''Product:''" by code_simp
  have p2: "startswith ''Review:y'' ''Review:''" by code_simp
  have n1: "list_all (\<lambda>l. \<not> startswith l ''Product:'') [''Review: x'', ''Review:y'']"
    by code_simp
  have n2: "list_all (\<lambda>l. \<not> startswith l ''Review:'') ([]::string list)" by simp
  from s1 s2 p1 p2 n1 n2
    last_matching_line_wins [of review_twice "[''Product: A'']" "''Product: B ''"
      "[''Review: x'', ''Review:y'']" "[''Product: A'', ''Product: B '', ''Review: x'']"
      "''Review:y''" "[]"]
  show ?thesis unfolding list_all_iff by blast
qed

text \<open>
  Claim C9. The extractor returns a pair for every input string, never an error: a line
  that begins with \<^verbatim>\<open>Product:\<close> or \<^verbatim>\<open>Review:\<close> contains a colon, so splitting it once
  on the colon yields at least two parts and index 1 is in range.
\<close>

theorem extract_review_info_total:
  "(\<exists>product review_text. extract_review_info review = Inr (product, review_text))
   \<and> (startswith line ''Product:'' \<or> startswith line ''Review:'' \<longrightarrow>
        (\<exists>parts v. py_split line '':'' 1 = Inr parts \<and> 2 \<le> length parts
           \<and> py_index parts 1 = Inr v))"
proof (intro conjI impI)
  show "\<exists>product review_text. extract_review_info review = Inr (product, review_text)"
    by (metis extract_review_info_foldl prod.collapse)
next
  assume "startswith line ''Product:'' \<or> startswith line ''Review:''"
  then have "CHR '':'' \<in> set line"
    using startswith_Product(1) startswith_Review(1) by blast
  then show "\<exists>parts v. py_split line '':'' 1 = Inr parts \<and> 2 \<le> length parts
           \<and> py_index parts 1 = Inr v"
    by (simp add: py_split_def py_index_def split_once_char)
qed

theorem extract_review_info_total_witness:
  "(startswith ''Review:'' ''Product:'' \<or> startswith ''Review:'' ''Review:'')
   \<and> (\<exists>parts v. py_split ''Review:'' '':'' 1 = Inr parts \<and> 2 \<le> length parts
           \<and> py_index parts 1 = Inr v)"
proof -
  have h: "startswith ''Review:'' ''Product:'' \<or> startswith ''Review:'' ''Review:''"
    by code_simp
  from h extract_review_info_total [of "[]" "''Review:''"] show ?thesis by blast
qed

subsection \<open>The remote calls and the loop\<close>

lemma send_message_Inr:
  "send_message g p w = (Inr t, w') \<longleftrightarrow>
     g (history w) p = Inr t \<and> w' = w\<lparr>history := history w @ [(p, t)]\<rparr>"
  by (auto simp: send_message_def split: sum.splits)

lemma send_message_Inl:
  "send_message g p w = (Inl e, w') \<longleftrightarrow> g (history w) p = Inl e \<and> w' = w"
  by (auto simp: send_message_def split: sum.splits)

lemma guess_product_Inr:
  "guess_product g text w = (Inr guessed, w') \<longleftrightarrow>
     (\<exists>r. g (history w) (product_prompt text) = Inr r \<and> guessed = strip r
        \<and> w' = w\<lparr>history := history w @ [(product_prompt text, r)]\<rparr>)"
  by (auto simp: guess_product_def send_message_def split: sum.splits)

lemma guess_product_Inl:
  "guess_product g text w = (Inl e, w') \<longleftrightarrow>
     g (history w) (product_prompt text) = Inl e \<and> w' = w"
  by (auto simp: guess_product_def send_message_def split: sum.splits)

lemma analyze_sentiment_Inr:
  "analyze_sentiment g text w = (Inr (sentiment, reply), w') \<longleftrightarrow>
     (\<exists>r. g (history w) (sentiment_prompt text) = Inr r \<and> sentiment = lower r
        \<and> g (history w @ [(sentiment_prompt text, r)]) (reply_prompt text (lower r)) = Inr reply
        \<and> w' = w\<lparr>history := history w @ [(sentiment_prompt text, r),
                                           (reply_prompt text (lower r), reply)]\<rparr>)"
  by (auto simp: analyze_sentiment_def send_message_def Let_def split: sum.splits)

lemma analyze_sentiment_Inl:
  "analyze_sentiment g text w = (Inl e, w') \<Longrightarrow>
     (\<exists>h p. g h p = Inl e) \<and> written w' = written w"
  by (auto simp: analyze_sentiment_def send_message_def Let_def split: sum.splits)

lemma extract_review_info_Inr: "\<exists>product text. extract_review_info review = Inr (product, text)"
  by (metis extract_review_info_foldl prod.collapse)

lemma loop_body_Inr:
  "loop_body g review data w = (Inr data', w') \<longleftrightarrow>
     (\<exists>product text r1 r2 r3.
        extract_review_info review = Inr (product, text)
        \<and> g (history w) (product_prompt text) = Inr r1
        \<and> g (history w @ [(product_prompt text, r1)]) (sentiment_prompt text) = Inr r2
        \<and> g (history w @ [(product_prompt text, r1), (sentiment_prompt text, r2)])
              (reply_prompt text (lower r2)) = Inr r3
        \<and> data' = data @ [[product, strip r1, text, lower r2, r3]]
        \<and> w' = w\<lparr>history := history w @ [(product_prompt text, r1), (sentiment_prompt text, r2),
                                           (reply_prompt text (lower r2), r3)],
                  slept := slept w + 2\<rparr>)"
proof -
  obtain product rtext where e: "extract_review_info review = Inr (product, rtext)"
    using extract_review_info_Inr by blast
  show ?thesis
  proof (cases "guess_product g rtext w")
    case (Pair r1 w1)
    show ?thesis
    proof (cases r1)
      case (Inl err)
      with Pair have gp: "guess_product g rtext w = (Inl err, w1)" by simp
      with e have lb: "loop_body g review data w = (Inl err, w1)"
        by (simp add: loop_body_def)
      from gp have "g (history w) (product_prompt rtext) = Inl err"
        by (simp add: guess_product_Inl)
      with lb e show ?thesis by auto
    next
      case (Inr guessed)
      with Pair have gp: "guess_product g rtext w = (Inr guessed, w1)" by simp
      then obtain r where r: "g (history w) (product_prompt rtext) = Inr r" "guessed = strip r"
        "w1 = w\<lparr>history := history w @ [(product_prompt rtext, r)]\<rparr>"
        by (auto simp: guess_product_Inr)
      show ?thesis
      proof (cases "analyze_sentiment g rtext w1")
        case (Pair r2 w2)
        show ?thesis
        proof (cases r2)
          case (Inl err)
          with Pair have "analyze_sentiment g rtext w1 = (Inl err, w2)" by simp
          then have "\<nexists>s rp w3. analyze_sentiment g rtext w1 = (Inr (s, rp), w3)" by simp
          then have no: "\<not> (\<exists>r2 r3. g (history w @ [(product_prompt rtext, r)]) (sentiment_prompt rtext) = Inr r2
              \<and> g (history w @ [(product_prompt rtext, r), (sentiment_prompt rtext, r2)])
                  (reply_prompt rtext (lower r2)) = Inr r3)"
            by (auto simp: analyze_sentiment_Inr r(3))
          from Pair Inl gp e have "loop_body g review data w = (Inl err, w2)"
            by (simp add: loop_body_def)
          with no r e show ?thesis by auto
        next
          case (Inr sr)
          obtain s rp where sr: "sr = (s, rp)" by (cases sr)
          with Pair Inr have an: "analyze_sentiment g rtext w1 = (Inr (s, rp), w2)" by simp
          from an gp e have lb: "loop_body g review data w
              = (Inr (data @ [[product, guessed, rtext, s, rp]]), w2\<lparr>slept := slept w2 + 2\<rparr>)"
            by (simp add: loop_body_def)
          from an obtain q where q: "g (history w1) (sentiment_prompt rtext) = Inr q" "s = lower q"
            "g (history w1 @ [(sentiment_prompt rtext, q)]) (reply_prompt rtext (lower q)) = Inr rp"
            "w2 = w1\<lparr>history := history w1 @ [(sentiment_prompt rtext, q),
                                           (reply_prompt rtext (lower q), rp)]\<rparr>"
            by (auto simp: analyze_sentiment_Inr)
          show ?thesis
            unfolding lb using e r q by auto
        qed
      qed
    qed
  qed
qed

lemma loop_body_Inl:
  assumes "loop_body g review data w = (Inl e, w')"
  shows "(\<exists>h p. g h p = Inl e) \<and> written w' = written w"
proof -
  obtain product rtext where e: "extract_review_info review = Inr (product, rtext)"
    using extract_review_info_Inr by blast
  show ?thesis
  proof (cases "guess_product g rtext w")
    case (Pair r1 w1)
    show ?thesis
    proof (cases r1)
      case (Inl err)
      with Pair have gp: "guess_product g rtext w = (Inl err, w1)" by simp
      with e have "loop_body g review data w = (Inl err, w1)"
        by (simp add: loop_body_def)
      with assms gp show ?thesis
        by (auto simp: guess_product_Inl)
    next
      case (Inr guessed)
      with Pair have gp: "guess_product g rtext w = (Inr guessed, w1)" by simp
      then have w1: "written w1 = written w"
        by (auto simp: guess_product_Inr)
      show ?thesis
      proof (cases "analyze_sentiment g rtext w1")
        case (Pair r2 w2)
        show ?thesis
        proof (cases r2)
          case (Inl err)
          with Pair have an: "analyze_sentiment g rtext w1 = (Inl err, w2)" by simp
          with gp e have "loop_body g review data w = (Inl err, w2)"
            by (simp add: loop_body_def)
          with assms analyze_sentiment_Inl [OF an] w1 show ?thesis by auto
        next
          case (Inr sr)
          with Pair gp e assms show ?thesis
            by (cases sr) (simp add: loop_body_def)
        qed
      qed
    qed
  qed
qed

lemma loop_body_written: "loop_body g review data w = (r, w') \<Longrightarrow> written w' = written w"
proof (cases r)
  case (Inl e)
  assume "loop_body g review data w = (r, w')"
  with Inl show ?thesis using loop_body_Inl by blast
next
  case (Inr d)
  assume "loop_body g review data w = (r, w')"
  with Inr show ?thesis by (auto simp: loop_body_Inr)
qed

lemma for_reviews_written:
  "for_reviews g reviews data w = (r, w') \<Longrightarrow> written w' = written w"
proof (induction reviews arbitrary: data w)
  case Nil
  then show ?case by simp
next
  case (Cons review reviews)
  obtain r1 w1 where lb: "loop_body g review data w = (r1, w1)"
    by (cases "loop_body g review data w")
  then have w1: "written w1 = written w" by (rule loop_body_written)
  show ?case
  proof (cases r1)
    case (Inl e)
    with lb Cons.prems w1 show ?thesis by simp
  next
    case (Inr d)
    with lb Cons.prems have "for_reviews g reviews d w1 = (r, w')" by simp
    then have "written w' = written w1" by (rule Cons.IH)
    with w1 show ?thesis by simp
  qed
qed

lemma for_reviews_Cons_Inr:
  "loop_body g review data w = (Inr data', w') \<Longrightarrow>
   for_reviews g (review # reviews) data w = for_reviews g reviews data' w'"
  by simp

lemma for_reviews_Cons_Inl:
  "loop_body g review data w = (Inl e, w') \<Longrightarrow>
   for_reviews g (review # reviews) data w = (Inl e, w')"
  by simp

lemma for_reviews_append:
  "for_reviews g pre data w = (Inr data1, w1) \<Longrightarrow>
   for_reviews g (pre @ post) data w = for_reviews g post data1 w1"
proof (induction pre arbitrary: data w)
  case Nil
  then show ?case by simp
next
  case (Cons review pre)
  obtain r1 w2 where lb: "loop_body g review data w = (r1, w2)"
    by (cases "loop_body g review data w")
  show ?case
  proof (cases r1)
    case (Inl e)
    with lb Cons.prems show ?thesis by simp
  next
    case (Inr d)
    with lb Cons.prems have "for_reviews g pre d w2 = (Inr data1, w1)" by simp
    then have "for_reviews g (pre @ post) d w2 = for_reviews g post data1 w1"
      by (rule Cons.IH)
    with lb Inr show ?thesis by simp
  qed
qed

lemma for_reviews_rows:
  "for_reviews g reviews data w = (Inr data', w') \<Longrightarrow>
   \<exists>rows. data' = data @ rows
     \<and> map (\<lambda>row. Inr (row ! 0, row ! 2)) rows = map extract_review_info reviews"
proof (induction reviews arbitrary: data w)
  case Nil
  then show ?case by simp
next
  case (Cons review reviews)
  obtain r1 w1 where lb: "loop_body g review data w = (r1, w1)"
    by (cases "loop_body g review data w")
  show ?case
  proof (cases r1)
    case (Inl e)
    with lb Cons.prems show ?thesis by simp
  next
    case (Inr d)
    with lb have lb': "loop_body g review data w = (Inr d, w1)" by simp
    then obtain row where row: "d = data @ [row]"
        "Inr (row ! 0, row ! 2) = extract_review_info review"
      by (auto simp: loop_body_Inr)
    from lb' Cons.prems have "for_reviews g reviews d w1 = (Inr data', w')" by simp
    from Cons.IH [OF this] obtain rows where rows: "data' = d @ rows"
        "map (\<lambda>row. Inr (row ! 0, row ! 2)) rows = map extract_review_info reviews"
      by blast
    have "data' = data @ (row # rows)" using row(1) rows(1) by simp
    moreover have "map (\<lambda>row. Inr (row ! 0, row ! 2)) (row # rows)
        = map extract_review_info (review # reviews)"
      using row(2) rows(2) by simp
    ultimately show ?thesis by blast
  qed
qed

lemma lower_char_idem: "lower_char (lower_char c) = lower_char c"
  by (simp add: lower_char_def Let_def)

lemma lower_idem: "lower (lower s) = lower s"
  by (simp add: lower_def lower_char_idem)

text \<open>
  Claim C5. The sentiment kept for a review is the lowercased form of the text the remote
  sentiment call returned, so lowercasing the stored field again changes nothing. Whatever
  text the call returns is accepted: nothing restricts it to Positive, Negative or Neutral.
\<close>

theorem sentiment_is_lowercased:
  "(g (history w) (sentiment_prompt rtext) = Inr r
      \<and> g (history w @ [(sentiment_prompt rtext, r)]) (reply_prompt rtext (lower r)) = Inr reply
    \<longrightarrow> fst (analyze_sentiment g rtext w) = Inr (lower r, reply))
   \<and> (analyze_sentiment g rtext w = (Inr (sentiment, reply'), w')
    \<longrightarrow> (\<exists>r'. g (history w) (sentiment_prompt rtext) = Inr r' \<and> sentiment = lower r')
        \<and> lower sentiment = sentiment)
   \<and> (loop_body g review data w = (Inr data', w'')
    \<longrightarrow> (\<exists>h rt r'. g h (sentiment_prompt rt) = Inr r' \<and> last data' ! 3 = lower r')
        \<and> lower (last data' ! 3) = last data' ! 3)"
proof (intro conjI impI)
  assume "g (history w) (sentiment_prompt rtext) = Inr r
      \<and> g (history w @ [(sentiment_prompt rtext, r)]) (reply_prompt rtext (lower r)) = Inr reply"
  then show "fst (analyze_sentiment g rtext w) = Inr (lower r, reply)"
    by (simp add: analyze_sentiment_def send_message_def Let_def)
next
  assume a: "analyze_sentiment g rtext w = (Inr (sentiment, reply'), w')"
  then show "\<exists>r'. g (history w) (sentiment_prompt rtext) = Inr r' \<and> sentiment = lower r'"
    by (auto simp: analyze_sentiment_Inr)
  from a show "lower sentiment = sentiment"
    by (auto simp: analyze_sentiment_Inr lower_idem)
next
  assume a: "loop_body g review data w = (Inr data', w'')"
  then show "\<exists>h rt r'. g h (sentiment_prompt rt) = Inr r' \<and> last data' ! 3 = lower r'"
    unfolding loop_body_Inr by fastforce
  from a show "lower (last data' ! 3) = last data' ! 3"
    by (auto simp: loop_body_Inr lower_idem)
qed

theorem sentiment_is_lowercased_witness:
  "demo_gemini (history demo_world) (sentiment_prompt ''Works great'') = Inr ''Positive''
   \<and> demo_gemini (history demo_world @ [(sentiment_prompt ''Works great'', ''Positive'')])
        (reply_prompt ''Works great'' (lower ''Positive'')) = Inr ''Thank you!''
   \<and> fst (analyze_sentiment demo_gemini ''Works great'' demo_world)
        = Inr (lower ''Positive'', ''Thank you!'')
   \<and> lower (lower ''Positive'') = lower ''Positive''
   \<and> lower ''Positive'' = ''positive''
   \<and> fst (loop_body demo_gemini demo_review [] demo_world)
        = Inr [[''Toaster'', ''Toaster'', ''Works great'', ''positive'', ''Thank you!'']]
   \<and> lower (last (projr (fst (loop_body demo_gemini demo_review [] demo_world))) ! 3)
        = last (projr (fst (loop_body demo_gemini demo_review [] demo_world))) ! 3"
proof -
  let ?w = "snd (analyze_sentiment demo_gemini ''Works great'' demo_world)"
  let ?w' = "snd (loop_body demo_gemini demo_review [] demo_world)"
  let ?d = "projr (fst (loop_body demo_gemini demo_review [] demo_world))"
  have a: "demo_gemini (history demo_world) (sentiment_prompt ''Works great'') = Inr ''Positive''"
    by code_simp
  have b: "demo_gemini (history demo_world @ [(sentiment_prompt ''Works great'', ''Positive'')])
        (reply_prompt ''Works great'' (lower ''Positive'')) = Inr ''Thank you!''"
    by code_simp
  have c: "lower ''Positive'' = ''positive''" by code_simp
  have d: "fst (loop_body demo_gemini demo_review [] demo_world)
        = Inr [[''Toaster'', ''Toaster'', ''Works great'', ''positive'', ''Thank you!'']]"
    by code_simp
  then have d': "fst (loop_body demo_gemini demo_review [] demo_world) = Inr ?d"
    by simp
  have e: "loop_body demo_gemini demo_review [] demo_world = (Inr ?d, ?w')"
    unfolding d' [symmetric] by simp
  note inst = sentiment_is_lowercased [of demo_gemini demo_world "''Works great''" "''Positive''"
      "''Thank you!''" "lower ''Positive''" "''Thank you!''" ?w demo_review "[]" ?d ?w']
  from a b inst have f1: "fst (analyze_sentiment demo_gemini ''Works great'' demo_world)
        = Inr (lower ''Positive'', ''Thank you!'')"
    by blast
  have f: "analyze_sentiment demo_gemini ''Works great'' demo_world
        = (Inr (lower ''Positive'', ''Thank you!''), ?w)"
    unfolding f1 [symmetric] by simp
  from a b c d e f inst show ?thesis by blast
qed

text \<open>
  Claim C6. For each review the loop sends the product question, then the sentiment
  question, then the reply question, and the reply question carries the sentiment just
  computed for that review: its text is the fixed wording, the review text, and at the
  end the lowercased reply to the sentiment question, which is also the fourth cell of
  the row. The row (original product, guessed product, review text, sentiment, reply) is
  appended to the list before the next review is processed.
\<close>

theorem loop_body_calls_in_order:
  "loop_body g review data w = (Inr data', w') \<Longrightarrow>
     \<exists>product rtext r1 r2 r3.
        extract_review_info review = Inr (product, rtext)
        \<and> g (history w) (product_prompt rtext) = Inr r1
        \<and> g (history w @ [(product_prompt rtext, r1)]) (sentiment_prompt rtext) = Inr r2
        \<and> g (history w @ [(product_prompt rtext, r1), (sentiment_prompt rtext, r2)])
              (reply_prompt rtext (lower r2)) = Inr r3
        \<and> history w' = history w @ [(product_prompt rtext, r1), (sentiment_prompt rtext, r2),
                                     (reply_prompt rtext (lower r2), r3)]
        \<and> data' = data @ [[product, strip r1, rtext, lower r2, r3]]
        \<and> for_reviews g (review # reviews) data w = for_reviews g reviews data' w'
        \<and> product_prompt rtext
             = ''Guess the product name based on this review in one word: '' @ rtext
        \<and> sentiment_prompt rtext
             = ''Categorize the sentiment in one word of this review in Positive/Negative/Neutral: ''
               @ rtext
        \<and> reply_prompt rtext (lower r2)
             = ''Add a 40 words reply to this review: '' @ rtext @ '' as per sentiment '' @ lower r2
        \<and> suffix (lower r2) (reply_prompt rtext (lower r2))
        \<and> (\<exists>r. g (history w @ [(product_prompt rtext, r1)]) (sentiment_prompt rtext) = Inr r
               \<and> data' ! length data ! 3 = lower r
               \<and> suffix (data' ! length data ! 3) (fst (history w' ! (length (history w) + 2))))"
proof -
  assume a: "loop_body g review data w = (Inr data', w')"
  then have nxt: "for_reviews g (review # reviews) data w = for_reviews g reviews data' w'"
    by simp
  from a obtain product rtext r1 r2 r3 where
    ex: "extract_review_info review = Inr (product, rtext)"
    and c1: "g (history w) (product_prompt rtext) = Inr r1"
    and c2: "g (history w @ [(product_prompt rtext, r1)]) (sentiment_prompt rtext) = Inr r2"
    and c3: "g (history w @ [(product_prompt rtext, r1), (sentiment_prompt rtext, r2)])
              (reply_prompt rtext (lower r2)) = Inr r3"
    and d: "data' = data @ [[product, strip r1, rtext, lower r2, r3]]"
    and w': "w' = w\<lparr>history := history w @ [(product_prompt rtext, r1), (sentiment_prompt rtext, r2),
                                           (reply_prompt rtext (lower r2), r3)],
                  slept := slept w + 2\<rparr>"
    unfolding loop_body_Inr by blast
  from w' have h: "history w' = history w @ [(product_prompt rtext, r1), (sentiment_prompt rtext, r2),
                                     (reply_prompt rtext (lower r2), r3)]"
    by simp
  have p1: "product_prompt rtext
      = ''Guess the product name based on this review in one word: '' @ rtext"
    by (simp add: product_prompt_def)
  have p2: "sentiment_prompt rtext
      = ''Categorize the sentiment in one word of this review in Positive/Negative/Neutral: ''
        @ rtext"
    by (simp add: sentiment_prompt_def)
  have p3: "reply_prompt rtext (lower r2)
      = ''Add a 40 words reply to this review: '' @ rtext @ '' as per sentiment '' @ lower r2"
    by (simp add: reply_prompt_def)
  have sf: "suffix (lower r2) (reply_prompt rtext (lower r2))"
    unfolding p3 suffix_def by (metis append.assoc)
  have cell: "data' ! length data ! 3 = lower r2"
    unfolding d by (simp add: nth_append)
  have third: "fst (history w' ! (length (history w) + 2)) = reply_prompt rtext (lower r2)"
    unfolding h by (simp add: nth_append)
  from c2 cell sf third
  have row: "\<exists>r. g (history w @ [(product_prompt rtext, r1)]) (sentiment_prompt rtext) = Inr r
               \<and> data' ! length data ! 3 = lower r
               \<and> suffix (data' ! length data ! 3) (fst (history w' ! (length (history w) + 2)))"
    by auto
  from ex c1 c2 c3 h d nxt p1 p2 p3 sf row show ?thesis by blast
qed

theorem loop_body_calls_in_order_witness:
  "fst (loop_body demo_gemini demo_review [] demo_world)
        = Inr [[''Toaster'', ''Toaster'', ''Works great'', ''positive'', ''Thank you!'']]
   \<and> (\<exists>product rtext r1 r2 r3.
        extract_review_info demo_review = Inr (product, rtext)
        \<and> demo_gemini (history demo_world) (product_prompt rtext) = Inr r1
        \<and> demo_gemini (history demo_world @ [(product_prompt rtext, r1)]) (sentiment_prompt rtext) = Inr r2
        \<and> demo_gemini (history demo_world @ [(product_prompt rtext, r1), (sentiment_prompt rtext, r2)])
              (reply_prompt rtext (lower r2)) = Inr r3
        \<and> history (snd (loop_body demo_gemini demo_review [] demo_world))
             = history demo_world @ [(product_prompt rtext, r1), (sentiment_prompt rtext, r2),
                                     (reply_prompt rtext (lower r2), r3)]
        \<and> reply_prompt rtext (lower r2)
             = ''Add a 40 words reply to this review: '' @ rtext @ '' as per sentiment '' @ lower r2
        \<and> suffix (lower r2) (reply_prompt rtext (lower r2)))
   \<and> map fst (history (snd (loop_body demo_gemini demo_review [] demo_world)))
        = [''Guess the product name based on this review in one word: Works great'',
           ''Categorize the sentiment in one word of this review in Positive/Negative/Neutral: Works great'',
           ''Add a 40 words reply to this review: Works great as per sentiment positive'']"
proof -
  let ?w' = "snd (loop_body demo_gemini demo_review [] demo_world)"
  let ?d = "[[''Toaster'', ''Toaster'', ''Works great'', ''positive'', ''Thank you!'']]"
  have d: "fst (loop_body demo_gemini demo_review [] demo_world) = Inr ?d"
    by code_simp
  have e: "loop_body demo_gemini demo_review [] demo_world = (Inr ?d, ?w')"
    unfolding d [symmetric] by simp
  have p: "map fst (history ?w')
        = [''Guess the product name based on this review in one word: Works great'',
           ''Categorize the sentiment in one word of this review in Positive/Negative/Neutral: Works great'',
           ''Add a 40 words reply to this review: Works great as per sentiment positive'']"
    by code_simp
  from d p loop_body_calls_in_order [OF e, of "[]"] show ?thesis by blast
qed

lemma main_try_no_key:
  assumes "environ (load_dotenv w0) ''GEMINI_API_KEY'' = None
     \<or> environ (load_dotenv w0) ''GEMINI_API_KEY'' = Some []"
  shows "main_try g w0
     = (Inl (ValueError ''API key not found in environment variables.''), load_dotenv w0)"
  using assms by (auto simp: main_try_def Let_def)

text \<open>
  Claim C7. When the credential variable \<^verbatim>\<open>GEMINI_API_KEY\<close> is absent or empty, the program
  raises a configuration error that is reported before any review is processed: nothing
  is sent to the remote model and no output file is created.
\<close>

theorem missing_api_key_is_fatal:
  assumes "environ (load_dotenv w0) ''GEMINI_API_KEY'' = None
     \<or> environ (load_dotenv w0) ''GEMINI_API_KEY'' = Some []"
  shows "fst (main_try g w0) = Inl (ValueError ''API key not found in environment variables.'')
     \<and> main g w0 = (load_dotenv w0)\<lparr>stdout := stdout w0
           @ [''An error occurred: API key not found in environment variables.'']\<rparr>
     \<and> stdout (main g w0)
          = stdout w0 @ [''An error occurred: API key not found in environment variables.'']
     \<and> written (main g w0) = written w0
     \<and> history (main g w0) = history w0
     \<and> slept (main g w0) = slept w0"
proof -
  note mt = main_try_no_key [OF assms, of g]
  have m: "main g w0 = (load_dotenv w0)\<lparr>stdout := stdout w0
           @ [''An error occurred: API key not found in environment variables.'']\<rparr>"
    by (simp add: main_def mt load_dotenv_def)
  show ?thesis
    by (simp add: m mt) (simp add: load_dotenv_def)
qed

theorem missing_api_key_is_fatal_witness:
  "environ (load_dotenv world_no_key) ''GEMINI_API_KEY'' = None
   \<and> environ (load_dotenv world_empty_key) ''GEMINI_API_KEY'' = Some []
   \<and> stdout (main demo_gemini world_no_key)
        = [''An error occurred: API key not found in environment variables.'']
   \<and> written (main demo_gemini world_no_key) = written world_no_key
   \<and> stdout (main demo_gemini world_empty_key)
        = [''An error occurred: API key not found in environment variables.'']
   \<and> written (main demo_gemini world_empty_key) = written world_empty_key"
proof -
  have h1: "environ (load_dotenv world_no_key) ''GEMINI_API_KEY'' = None"
    by (simp add: load_dotenv_def world_no_key_def demo_world_def)
  have h2: "environ (load_dotenv world_empty_key) ''GEMINI_API_KEY'' = Some []"
    by (simp add: load_dotenv_def world_empty_key_def demo_world_def)
  have s1: "stdout world_no_key = []" by (simp add: world_no_key_def demo_world_def)
  have s2: "stdout world_empty_key = []" by (simp add: world_empty_key_def demo_world_def)
  note k1 = missing_api_key_is_fatal [OF disjI1 [OF h1], of demo_gemini]
  note k2 = missing_api_key_is_fatal [OF disjI2 [OF h2], of demo_gemini]
  from k1 have "stdout (main demo_gemini world_no_key) = stdout world_no_key
        @ [''An error occurred: API key not found in environment variables.'']"
    by blast
  then have m1: "stdout (main demo_gemini world_no_key)
        = [''An error occurred: API key not found in environment variables.'']"
    by (simp add: s1)
  from k1 have w1: "written (main demo_gemini world_no_key) = written world_no_key"
    by blast
  from k2 have "stdout (main demo_gemini world_empty_key) = stdout world_empty_key
        @ [''An error occurred: API key not found in environment variables.'']"
    by blast
  then have m2: "stdout (main demo_gemini world_empty_key)
        = [''An error occurred: API key not found in environment variables.'']"
    by (simp add: s2)
  from k2 have w2: "written (main demo_gemini world_empty_key) = written world_empty_key"
    by blast
  from h1 h2 m1 w1 m2 w2 show ?thesis by blast
qed

subsection \<open>The loader, the run and the writer\<close>

lemma nonempty_stripped:
  "[strip review. review \<leftarrow> reviews, strip review \<noteq> []]
     = filter (\<lambda>b. b \<noteq> []) (map strip reviews)"
  by (induction reviews) simp_all

lemma read_reviews_Inr:
  "read_reviews w file_path delimiter = Inr reviews \<longleftrightarrow>
     (\<exists>content pieces. files w file_path = Inr content
        \<and> py_split content delimiter (-1) = Inr pieces
        \<and> reviews = filter (\<lambda>b. b \<noteq> []) (map strip pieces))"
  unfolding read_reviews_def nonempty_stripped
  by (auto split: sum.splits)

lemma save_to_csv_Inr:
  "save_to_csv data csv_file w = (Inr u, w') \<longleftrightarrow>
     open_w w csv_file = None \<and> w' = w\<lparr>written := (written w)(csv_file \<mapsto> csv_header # data)\<rparr>"
  by (auto simp: save_to_csv_def split: option.splits)

lemma process_reviews_Inr:
  "process_reviews g file_path csv_file delimiter w = (Inr u, w') \<longleftrightarrow>
     (\<exists>reviews data w1. read_reviews w file_path delimiter = Inr reviews
        \<and> for_reviews g reviews [] w = (Inr data, w1)
        \<and> save_to_csv data csv_file w1 = (Inr u, w'))"
proof (cases "read_reviews w file_path delimiter")
  case (Inl e)
  then show ?thesis by (simp add: process_reviews_def)
next
  case (Inr reviews)
  obtain r w1 where fr: "for_reviews g reviews [] w = (r, w1)"
    by (cases "for_reviews g reviews [] w")
  show ?thesis
  proof (cases r)
    case (Inl e)
    with Inr fr show ?thesis by (simp add: process_reviews_def)
  next
    case r: (Inr data)
    with Inr fr show ?thesis by (simp add: process_reviews_def)
  qed
qed

lemma for_reviews_length:
  "for_reviews g reviews [] w = (Inr data, w') \<Longrightarrow> length data = length reviews"
proof -
  assume "for_reviews g reviews [] w = (Inr data, w')"
  from for_reviews_rows [OF this] have
    "map (\<lambda>row. Inr (row ! 0, row ! 2)) data = map extract_review_info reviews"
    by simp
  then show ?thesis by (rule map_eq_imp_length_eq)
qed

text \<open>
  Claim C1. For every input file, the number of data rows handed to the CSV writer equals
  the number of non-empty review blobs: split the file contents on the delimiter, strip
  each segment, drop the segments that are empty after stripping.
\<close>

theorem rows_equal_nonempty_blobs:
  assumes "files w file_path = Inr content"
    and "process_reviews g file_path csv_file delimiter w = (Inr u, w')"
  shows "\<exists>pieces data. py_split content delimiter (-1) = Inr pieces
     \<and> written w' csv_file = Some (csv_header # data)
     \<and> length data = length (filter (\<lambda>blob. blob \<noteq> []) (map strip pieces))"
proof -
  from assms(2) obtain reviews data w1 where
    rr: "read_reviews w file_path delimiter = Inr reviews"
    and fr: "for_reviews g reviews [] w = (Inr data, w1)"
    and sv: "save_to_csv data csv_file w1 = (Inr u, w')"
    unfolding process_reviews_Inr by blast
  from rr assms(1) obtain pieces where
    sp: "py_split content delimiter (-1) = Inr pieces"
    and rv: "reviews = filter (\<lambda>blob. blob \<noteq> []) (map strip pieces)"
    unfolding read_reviews_Inr by auto
  from sv have "written w' csv_file = Some (csv_header # data)"
    by (simp add: save_to_csv_Inr)
  moreover from fr have "length data = length reviews"
    by (rule for_reviews_length)
  ultimately show ?thesis using sp rv by blast
qed

theorem rows_equal_nonempty_blobs_witness:
  "files demo_world reviews_path = Inr demo_content
   \<and> fst (process_reviews demo_gemini reviews_path csv_path default_delimiter demo_world) = Inr ()
   \<and> (\<exists>pieces data. py_split demo_content default_delimiter (-1) = Inr pieces
     \<and> written (snd (process_reviews demo_gemini reviews_path csv_path default_delimiter demo_world))
          csv_path = Some (csv_header # data)
     \<and> length data = length (filter (\<lambda>blob. blob \<noteq> []) (map strip pieces)))
   \<and> length (filter (\<lambda>blob. blob \<noteq> [])
        (map strip (projr (py_split demo_content default_delimiter (-1))))) = 2"
proof -
  let ?w' = "snd (process_reviews demo_gemini reviews_path csv_path default_delimiter demo_world)"
  have f: "files demo_world reviews_path = Inr demo_content"
    by (simp add: demo_world_def)
  have r: "fst (process_reviews demo_gemini reviews_path csv_path default_delimiter demo_world) = Inr ()"
    by code_simp
  have p: "process_reviews demo_gemini reviews_path csv_path default_delimiter demo_world
      = (Inr (), ?w')"
    unfolding r [symmetric] by simp
  have n: "length (filter (\<lambda>blob. blob \<noteq> [])
        (map strip (projr (py_split demo_content default_delimiter (-1))))) = 2"
    by code_simp
  from f r n rows_equal_nonempty_blobs [OF f p] show ?thesis by blast
qed

lemma process_reviews_loop_Inl:
  "read_reviews w file_path delimiter = Inr reviews \<Longrightarrow>
   for_reviews g reviews [] w = (Inl e, w1) \<Longrightarrow>
   process_reviews g file_path csv_file delimiter w = (Inl e, w1)"
  by (simp add: process_reviews_def)

text \<open>
  Claim C2. When a remote call raises while review N is processed, the run aborts before
  the writer is invoked: no output file is produced and the rows already computed for
  reviews 1..N-1 are discarded. The writer runs only after the loop over all reviews has
  completed without error.
\<close>

theorem remote_failure_discards_results:
  "(read_reviews w file_path delimiter = Inr (pre @ review # post)
      \<and> for_reviews g pre [] w = (Inr data, w1)
      \<and> loop_body g review data w1 = (Inl e, w2)
    \<longrightarrow> process_reviews g file_path csv_file delimiter w = (Inl e, w2)
        \<and> written w2 = written w
        \<and> (\<exists>h p. g h p = Inl e)
        \<and> length data = length pre)
   \<and> (process_reviews g file_path csv_file delimiter w = (Inr u, w')
    \<longrightarrow> (\<exists>reviews rows w3. read_reviews w file_path delimiter = Inr reviews
           \<and> for_reviews g reviews [] w = (Inr rows, w3)
           \<and> save_to_csv rows csv_file w3 = (Inr u, w')))"
proof (intro conjI impI)
  assume a: "read_reviews w file_path delimiter = Inr (pre @ review # post)
      \<and> for_reviews g pre [] w = (Inr data, w1)
      \<and> loop_body g review data w1 = (Inl e, w2)"
  then have pre: "for_reviews g pre [] w = (Inr data, w1)"
    and lb: "loop_body g review data w1 = (Inl e, w2)"
    by simp_all
  from lb have "for_reviews g (review # post) data w1 = (Inl e, w2)"
    by simp
  with for_reviews_append [OF pre, of "review # post"]
  have fr: "for_reviews g (pre @ review # post) [] w = (Inl e, w2)"
    by simp
  with a show "process_reviews g file_path csv_file delimiter w = (Inl e, w2)"
    by (simp add: process_reviews_loop_Inl)
  from fr show "written w2 = written w"
    by (rule for_reviews_written)
  from lb show "\<exists>h p. g h p = Inl e"
    using loop_body_Inl by blast
  from pre show "length data = length pre"
    by (rule for_reviews_length)
next
  assume "process_reviews g file_path csv_file delimiter w = (Inr u, w')"
  then show "\<exists>reviews rows w3. read_reviews w file_path delimiter = Inr reviews
           \<and> for_reviews g reviews [] w = (Inr rows, w3)
           \<and> save_to_csv rows csv_file w3 = (Inr u, w')"
    unfolding process_reviews_Inr .
qed

theorem remote_failure_discards_results_witness:
  "read_reviews demo_world reviews_path default_delimiter = Inr ([demo_review] @ demo_review2 # [])
   \<and> fst (for_reviews failing_gemini [demo_review] [] demo_world)
        = Inr [[''Toaster'', ''Toaster'', ''Works great'', ''positive'', ''Thank you!'']]
   \<and> fst (loop_body failing_gemini demo_review2
          [[''Toaster'', ''Toaster'', ''Works great'', ''positive'', ''Thank you!'']]
          (snd (for_reviews failing_gemini [demo_review] [] demo_world)))
        = Inl (RemoteError ''quota exceeded'')
   \<and> fst (process_reviews failing_gemini reviews_path csv_path default_delimiter demo_world)
        = Inl (RemoteError ''quota exceeded'')
   \<and> written (snd (process_reviews failing_gemini reviews_path csv_path default_delimiter demo_world))
        = written demo_world
   \<and> fst (process_reviews demo_gemini reviews_path csv_path default_delimiter demo_world) = Inr ()
   \<and> (\<exists>reviews rows w3. read_reviews demo_world reviews_path default_delimiter = Inr reviews
           \<and> for_reviews demo_gemini reviews [] demo_world = (Inr rows, w3))"
proof -
  let ?d = "[[''Toaster'', ''Toaster'', ''Works great'', ''positive'', ''Thank you!'']]"
  let ?w1 = "snd (for_reviews failing_gemini [demo_review] [] demo_world)"
  let ?w2 = "snd (loop_body failing_gemini demo_review2 ?d ?w1)"
  let ?w' = "snd (process_reviews demo_gemini reviews_path csv_path default_delimiter demo_world)"
  have f: "files demo_world reviews_path = Inr demo_content"
    by (simp add: demo_world_def)
  have "filter (\<lambda>b. b \<noteq> []) (map strip (projr (py_split demo_content default_delimiter (-1))))
      = [demo_review] @ demo_review2 # []"
    by code_simp
  moreover have "py_split demo_content default_delimiter (-1)
      = Inr (projr (py_split demo_content default_delimiter (-1)))"
    by (simp add: py_split_def default_delimiter_def)
  ultimately have rr: "read_reviews demo_world reviews_path default_delimiter
      = Inr ([demo_review] @ demo_review2 # [])"
    unfolding read_reviews_Inr using f by metis
  have a1: "fst (for_reviews failing_gemini [demo_review] [] demo_world) = Inr ?d"
    by code_simp
  have a: "for_reviews failing_gemini [demo_review] [] demo_world = (Inr ?d, ?w1)"
    unfolding a1 [symmetric] by simp
  have b1: "fst (loop_body failing_gemini demo_review2 ?d ?w1) = Inl (RemoteError ''quota exceeded'')"
    by code_simp
  have b: "loop_body failing_gemini demo_review2 ?d ?w1 = (Inl (RemoteError ''quota exceeded''), ?w2)"
    unfolding b1 [symmetric] by simp
  have c1: "fst (process_reviews demo_gemini reviews_path csv_path default_delimiter demo_world) = Inr ()"
    by code_simp
  have c: "process_reviews demo_gemini reviews_path csv_path default_delimiter demo_world
      = (Inr (), ?w')"
    unfolding c1 [symmetric] by simp
  note k1 = remote_failure_discards_results [of demo_world reviews_path default_delimiter
      "[demo_review]" demo_review2 "[]" failing_gemini ?d ?w1 "RemoteError ''quota exceeded''" ?w2
      csv_path]
  note k2 = remote_failure_discards_results [of demo_world reviews_path default_delimiter
      "[]" "[]" "[]" demo_gemini "[]" demo_world "RemoteError []" demo_world csv_path "()" ?w']
  from rr a b k1 have p: "process_reviews failing_gemini reviews_path csv_path default_delimiter demo_world
      = (Inl (RemoteError ''quota exceeded''), ?w2)" and wr: "written ?w2 = written demo_world"
    by blast+
  from p have p1: "fst (process_reviews failing_gemini reviews_path csv_path default_delimiter demo_world)
        = Inl (RemoteError ''quota exceeded'')"
    and p2: "snd (process_reviews failing_gemini reviews_path csv_path default_delimiter demo_world) = ?w2"
    by simp_all
  from c k2 have e: "\<exists>reviews rows w3. read_reviews demo_world reviews_path default_delimiter = Inr reviews
           \<and> for_reviews demo_gemini reviews [] demo_world = (Inr rows, w3)"
    by blast
  from rr a1 b1 p1 wr c1 e show ?thesis unfolding p2 by blast
qed

text \<open>
  Claim C4. The writer opens the destination for writing, replacing whatever the file
  held, writes the fixed header row Original Product, Guessed Product, Review, Sentiment,
  Reply first, then one data row per input review in the order of the source file.
\<close>

theorem save_to_csv_header_then_rows:
  "(open_w w csv_file = None
    \<longrightarrow> (\<exists>w'. save_to_csv data csv_file w = (Inr (), w')
           \<and> written w' csv_file = Some (csv_header # data)
           \<and> (\<forall>other. other \<noteq> csv_file \<longrightarrow> written w' other = written w other)))
   \<and> csv_header = [''Original Product'', ''Guessed Product'', ''Review'', ''Sentiment'', ''Reply'']
   \<and> (read_reviews w file_path delimiter = Inr reviews
        \<and> process_reviews g file_path csv_file delimiter w = (Inr u, w'')
    \<longrightarrow> (\<exists>rows. written w'' csv_file = Some (csv_header # rows)
           \<and> map (\<lambda>row. Inr (row ! 0, row ! 2)) rows = map extract_review_info reviews))"
proof (intro conjI impI)
  assume "open_w w csv_file = None"
  then show "\<exists>w'. save_to_csv data csv_file w = (Inr (), w')
           \<and> written w' csv_file = Some (csv_header # data)
           \<and> (\<forall>other. other \<noteq> csv_file \<longrightarrow> written w' other = written w other)"
    by (simp add: save_to_csv_def)
next
  show "csv_header = [''Original Product'', ''Guessed Product'', ''Review'', ''Sentiment'', ''Reply'']"
    by (simp add: csv_header_def)
next
  assume a: "read_reviews w file_path delimiter = Inr reviews
        \<and> process_reviews g file_path csv_file delimiter w = (Inr u, w'')"
  then obtain rows w1 where fr: "for_reviews g reviews [] w = (Inr rows, w1)"
    and sv: "save_to_csv rows csv_file w1 = (Inr u, w'')"
    unfolding process_reviews_Inr by auto
  from sv have "written w'' csv_file = Some (csv_header # rows)"
    by (simp add: save_to_csv_Inr)
  moreover from for_reviews_rows [OF fr]
  have "map (\<lambda>row. Inr (row ! 0, row ! 2)) rows = map extract_review_info reviews"
    by simp
  ultimately show "\<exists>rows. written w'' csv_file = Some (csv_header # rows)
           \<and> map (\<lambda>row. Inr (row ! 0, row ! 2)) rows = map extract_review_info reviews"
    by blast
qed

lemma read_reviews_demo_world:
  "read_reviews demo_world reviews_path default_delimiter = Inr [demo_review, demo_review2]"
proof -
  have "files demo_world reviews_path = Inr demo_content"
    by (simp add: demo_world_def)
  moreover have "filter (\<lambda>b. b \<noteq> []) (map strip (projr (py_split demo_content default_delimiter (-1))))
      = [demo_review, demo_review2]"
    by code_simp
  moreover have "py_split demo_content default_delimiter (-1)
      = Inr (projr (py_split demo_content default_delimiter (-1)))"
    by (simp add: py_split_def default_delimiter_def)
  ultimately show ?thesis
    unfolding read_reviews_Inr by metis
qed

theorem save_to_csv_header_then_rows_witness:
  "open_w world_old_csv csv_path = None
   \<and> written world_old_csv csv_path = Some [[''old'']]
   \<and> (\<exists>w'. save_to_csv [] csv_path world_old_csv = (Inr (), w')
          \<and> written w' csv_path = Some (csv_header # []))
   \<and> read_reviews demo_world reviews_path default_delimiter = Inr [demo_review, demo_review2]
   \<and> fst (process_reviews demo_gemini reviews_path csv_path default_delimiter demo_world) = Inr ()
   \<and> (\<exists>rows. written (snd (process_reviews demo_gemini reviews_path csv_path default_delimiter
                               demo_world)) csv_path = Some (csv_header # rows)
          \<and> map (\<lambda>row. Inr (row ! 0, row ! 2)) rows
              = map extract_review_info [demo_review, demo_review2])"
proof -
  let ?w' = "snd (process_reviews demo_gemini reviews_path csv_path default_delimiter demo_world)"
  have o: "open_w world_old_csv csv_path = None"
    by (simp add: world_old_csv_def demo_world_def)
  have old: "written world_old_csv csv_path = Some [[''old'']]"
    by (simp add: world_old_csv_def)
  have r: "fst (process_reviews demo_gemini reviews_path csv_path default_delimiter demo_world) = Inr ()"
    by code_simp
  have p: "process_reviews demo_gemini reviews_path csv_path default_delimiter demo_world
      = (Inr (), ?w')"
    unfolding r [symmetric] by simp
  note k1 = save_to_csv_header_then_rows [of world_old_csv csv_path "[]" reviews_path
      default_delimiter "[]" demo_gemini "()" world_old_csv]
  note k2 = save_to_csv_header_then_rows [of demo_world csv_path "[]" reviews_path
      default_delimiter "[demo_review, demo_review2]" demo_gemini "()" ?w']
  from o k1 have s: "\<exists>w'. save_to_csv [] csv_path world_old_csv = (Inr (), w')
          \<and> written w' csv_path = Some (csv_header # [])"
    by blast
  from read_reviews_demo_world p k2
  have t: "\<exists>rows. written ?w' csv_path = Some (csv_header # rows)
          \<and> map (\<lambda>row. Inr (row ! 0, row ! 2)) rows
              = map extract_review_info [demo_review, demo_review2]"
    by blast
  from o old s read_reviews_demo_world r t show ?thesis by blast
qed

lemma split_from_not_Nil [simp]: "split_from sep n cur s \<noteq> []"
  by (induction sep n cur s rule: split_from.induct) (subst split_from.simps, simp)

lemma join_Cons: "join sep (x # xs) = (if xs = [] then x else x @ sep @ join sep xs)"
  by (cases xs) simp_all

lemma split_from_prefix:
  "sep \<noteq> [] \<Longrightarrow> n \<noteq> 0 \<Longrightarrow> s \<noteq> [] \<Longrightarrow> prefix sep s \<Longrightarrow>
   split_from sep n cur s = cur # split_from sep (n - 1) [] (drop (length sep) s)"
  by (subst split_from.simps) simp

lemma split_from_no_prefix:
  "sep \<noteq> [] \<Longrightarrow> n \<noteq> 0 \<Longrightarrow> s \<noteq> [] \<Longrightarrow> \<not> prefix sep s \<Longrightarrow>
   split_from sep n cur s = split_from sep n (cur @ [hd s]) (tl s)"
  by (subst split_from.simps) simp

lemma join_split_from:
  "sep \<noteq> [] \<Longrightarrow> n < 0 \<Longrightarrow> join sep (split_from sep n cur s) = cur @ s"
proof (induction sep n cur s rule: split_from.induct)
  case (1 sep maxsplit cur s)
  show ?case
  proof (cases "s = []")
    case True
    then show ?thesis by simp
  next
    case s: False
    from "1.prems" have n: "maxsplit \<noteq> 0" "maxsplit - 1 < 0" by simp_all
    show ?thesis
    proof (cases "prefix sep s")
      case True
      then obtain zs where zs: "s = sep @ zs" by (auto simp: prefix_def)
      have "join sep (split_from sep (maxsplit - 1) [] (drop (length sep) s))
          = [] @ drop (length sep) s"
        using "1.IH"(1) s n "1.prems"(1) True by simp
      then show ?thesis
        using split_from_prefix [OF "1.prems"(1) n(1) s True] zs
        by (simp add: join_Cons)
    next
      case False
      have "join sep (split_from sep maxsplit (cur @ [hd s]) (tl s)) = (cur @ [hd s]) @ tl s"
        using "1.IH"(2) s n "1.prems" False by simp
      then show ?thesis
        using split_from_no_prefix [OF "1.prems"(1) n(1) s False] s by simp
    qed
  qed
qed

lemma sublist_gives_prefix:
  assumes "sublist sep cur" and "sep \<noteq> []"
  shows "\<exists>k<length cur. prefix sep (drop k (cur @ s))"
proof -
  from assms(1) obtain ps ss where c: "cur = ps @ sep @ ss"
    by (auto simp: sublist_def)
  have "length ps < length cur" using c assms(2) by simp
  moreover have "prefix sep (drop (length ps) (cur @ s))" by (simp add: c)
  ultimately show ?thesis by blast
qed

lemma split_from_no_sep:
  "sep \<noteq> [] \<Longrightarrow> n < 0 \<Longrightarrow> (\<forall>k<length cur. \<not> prefix sep (drop k (cur @ s))) \<Longrightarrow>
   \<forall>p\<in>set (split_from sep n cur s). \<not> sublist sep p"
proof (induction sep n cur s rule: split_from.induct)
  case (1 sep maxsplit cur s)
  from "1.prems" have n: "maxsplit \<noteq> 0" "maxsplit - 1 < 0" by simp_all
  have cur: "\<not> sublist sep cur"
    using sublist_gives_prefix [of sep cur s] "1.prems"(1,3) by blast
  show ?case
  proof (cases "s = []")
    case True
    with cur show ?thesis by simp
  next
    case s: False
    show ?thesis
    proof (cases "prefix sep s")
      case True
      have "\<forall>p\<in>set (split_from sep (maxsplit - 1) [] (drop (length sep) s)). \<not> sublist sep p"
        using "1.IH"(1) s n "1.prems"(1) True by simp
      with cur show ?thesis
        using split_from_prefix [OF "1.prems"(1) n(1) s True] by simp
    next
      case False
      have "\<forall>k<length (cur @ [hd s]). \<not> prefix sep (drop k ((cur @ [hd s]) @ tl s))"
      proof (intro allI impI)
        fix k assume k: "k < length (cur @ [hd s])"
        show "\<not> prefix sep (drop k ((cur @ [hd s]) @ tl s))"
        proof (cases "k < length cur")
          case True
          with "1.prems"(3) s show ?thesis by simp
        next
          case k': False
          with k have "k = length cur" by simp
          with False s show ?thesis by simp
        qed
      qed
      then have "\<forall>p\<in>set (split_from sep maxsplit (cur @ [hd s]) (tl s)). \<not> sublist sep p"
        using "1.IH"(2) s n "1.prems"(1,2) False by simp
      then show ?thesis
        using split_from_no_prefix [OF "1.prems"(1) n(1) s False] by simp
    qed
  qed
qed

lemma split_from_trivial: "s = [] \<or> sep = [] \<Longrightarrow> split_from sep n cur s = [cur @ s]"
  by (subst split_from.simps) auto

lemma split_from_negative:
  "n < 0 \<Longrightarrow> m < 0 \<Longrightarrow> split_from sep n cur s = split_from sep m cur s"
proof (induction sep n cur s arbitrary: m rule: split_from.induct)
  case (1 sep maxsplit cur s)
  from "1.prems" have n: "maxsplit \<noteq> 0" "maxsplit - 1 < 0" "m \<noteq> 0" "m - 1 < 0" by simp_all
  show ?case
  proof (cases "s = [] \<or> sep = []")
    case True
    then show ?thesis by (simp add: split_from_trivial)
  next
    case False
    then have s: "s \<noteq> []" "sep \<noteq> []" by simp_all
    show ?thesis
    proof (cases "prefix sep s")
      case True
      have "split_from sep (maxsplit - 1) [] (drop (length sep) s)
          = split_from sep (m - 1) [] (drop (length sep) s)"
        using "1.IH"(1) [of "m - 1"] s n True by simp
      then show ?thesis
        using split_from_prefix [OF s(2) n(1) s(1) True] split_from_prefix [OF s(2) n(3) s(1) True]
        by simp
    next
      case np: False
      have "split_from sep maxsplit (cur @ [hd s]) (tl s) = split_from sep m (cur @ [hd s]) (tl s)"
        using "1.IH"(2) [of m] s n np "1.prems" by simp
      then show ?thesis
        using split_from_no_prefix [OF s(2) n(1) s(1) np] split_from_no_prefix [OF s(2) n(3) s(1) np]
        by simp
    qed
  qed
qed

lemma split_from_first_occurrence:
  "sep \<noteq> [] \<Longrightarrow> n < 0 \<Longrightarrow> (\<forall>k<length a. \<not> prefix sep (drop k (a @ sep @ b))) \<Longrightarrow>
   split_from sep n cur (a @ sep @ b) = (cur @ a) # split_from sep n [] b"
proof (induction a arbitrary: cur)
  case Nil
  then have "split_from sep n cur (sep @ b) = cur # split_from sep (n - 1) [] b"
    using split_from_prefix [of sep n "sep @ b" cur] by simp
  also have "split_from sep (n - 1) [] b = split_from sep n [] b"
    using Nil.prems(2) by (intro split_from_negative) simp_all
  finally show ?case by simp
next
  case (Cons x a)
  from Cons.prems(3) have np: "\<not> prefix sep ((x # a) @ sep @ b)"
    by (metis drop0 length_greater_0_conv list.distinct(1))
  have "\<forall>k<length a. \<not> prefix sep (drop k (a @ sep @ b))"
  proof (intro allI impI)
    fix k assume "k < length a"
    then have "Suc k < length (x # a)" by simp
    with Cons.prems(3) have "\<not> prefix sep (drop (Suc k) ((x # a) @ sep @ b))" by blast
    then show "\<not> prefix sep (drop k (a @ sep @ b))" by simp
  qed
  from Cons.IH [OF Cons.prems(1,2) this, of "cur @ [x]"]
  have "split_from sep n (cur @ [x]) (a @ sep @ b) = (cur @ x # a) # split_from sep n [] b"
    by simp
  moreover from Cons.prems(2) have "n \<noteq> 0" by simp
  ultimately show ?case
    using split_from_no_prefix [OF Cons.prems(1) \<open>n \<noteq> 0\<close> _ np, of cur] by simp
qed

lemma sublist_strip: "sublist (strip x) x"
proof -
  have "suffix (dropWhile is_space x) x"
    by (rule suffix_dropWhile)
  moreover have "prefix (rev (dropWhile is_space (rev (dropWhile is_space x)))) (dropWhile is_space x)"
    by (metis prefix_def rev_append rev_rev_ident takeWhile_dropWhile_id)
  ultimately show ?thesis
    unfolding strip_def
    by (meson prefix_imp_sublist suffix_imp_sublist sublist_order.order_trans)
qed

text \<open>
  Claim C10. The loader splits the file contents at every occurrence of the delimiter
  text, wherever it stands: the delimiter need not be a line of its own, and a review
  line that contains it is cut into two blobs at that point.
\<close>

theorem read_reviews_splits_at_every_delimiter:
  assumes "delimiter \<noteq> []" and "files w file_path = Inr content"
  shows "\<exists>pieces. py_split content delimiter (-1) = Inr pieces
      \<and> join delimiter pieces = content
      \<and> (\<forall>piece\<in>set pieces. \<not> sublist delimiter piece)
      \<and> read_reviews w file_path delimiter = Inr (filter (\<lambda>blob. blob \<noteq> []) (map strip pieces))
      \<and> (\<forall>blob\<in>set (filter (\<lambda>blob. blob \<noteq> []) (map strip pieces)). \<not> sublist delimiter blob)
      \<and> (\<forall>a b. content = a @ delimiter @ b
             \<and> (\<forall>k<length a. \<not> prefix delimiter (drop k content))
           \<longrightarrow> (\<exists>rest. py_split b delimiter (-1) = Inr rest \<and> pieces = a # rest))"
proof -
  let ?pieces = "split_from delimiter (-1) [] content"
  have sp: "py_split content delimiter (-1) = Inr ?pieces"
    using assms(1) by (simp add: py_split_def)
  have j: "join delimiter ?pieces = content"
    using join_split_from [OF assms(1), of "-1" "[]" content] by simp
  have ns: "\<forall>piece\<in>set ?pieces. \<not> sublist delimiter piece"
    using split_from_no_sep [OF assms(1), of "-1" "[]" content] by simp
  have rr: "read_reviews w file_path delimiter
      = Inr (filter (\<lambda>blob. blob \<noteq> []) (map strip ?pieces))"
    unfolding read_reviews_Inr using assms(2) sp by blast
  have nb: "\<forall>blob\<in>set (filter (\<lambda>blob. blob \<noteq> []) (map strip ?pieces)). \<not> sublist delimiter blob"
  proof
    fix blob assume "blob \<in> set (filter (\<lambda>blob. blob \<noteq> []) (map strip ?pieces))"
    then obtain piece where p: "piece \<in> set ?pieces" "blob = strip piece" by auto
    from p(1) ns have "\<not> sublist delimiter piece" by blast
    with sublist_strip [of piece] show "\<not> sublist delimiter blob"
      unfolding p(2) by (meson sublist_order.order_trans)
  qed
  have fo: "\<forall>a b. content = a @ delimiter @ b
             \<and> (\<forall>k<length a. \<not> prefix delimiter (drop k content))
           \<longrightarrow> (\<exists>rest. py_split b delimiter (-1) = Inr rest \<and> ?pieces = a # rest)"
  proof (intro allI impI)
    fix a b
    assume ab: "content = a @ delimiter @ b
             \<and> (\<forall>k<length a. \<not> prefix delimiter (drop k content))"
    then have c: "content = a @ delimiter @ b"
      and f: "\<forall>k<length a. \<not> prefix delimiter (drop k content)"
      by blast+
    from f have "\<forall>k<length a. \<not> prefix delimiter (drop k (a @ delimiter @ b))"
      unfolding c .
    from split_from_first_occurrence [OF assms(1) _ this, of "-1" "[]"]
    have "?pieces = a # split_from delimiter (-1) [] b"
      unfolding c by simp
    moreover have "py_split b delimiter (-1) = Inr (split_from delimiter (-1) [] b)"
      using assms(1) by (simp add: py_split_def)
    ultimately show "\<exists>rest. py_split b delimiter (-1) = Inr rest \<and> ?pieces = a # rest"
      by blast
  qed
  from sp j ns rr nb fo show ?thesis by blast
qed

theorem read_reviews_splits_at_every_delimiter_witness:
  "default_delimiter \<noteq> []
   \<and> files world_midline reviews_path = Inr midline_content
   \<and> midline_content = midline_before @ default_delimiter @ midline_after
   \<and> list_all (\<lambda>k. \<not> prefix default_delimiter (drop k midline_content)) [0..<length midline_before]
   \<and> py_split midline_content default_delimiter (-1) = Inr [midline_before, midline_after]
   \<and> read_reviews world_midline reviews_path default_delimiter
        = Inr [strip midline_before, strip midline_after]
   \<and> list_all (\<lambda>blob. \<not> sublist default_delimiter blob) [strip midline_before, strip midline_after]"
proof -
  have d: "default_delimiter \<noteq> []" by (simp add: default_delimiter_def)
  have f: "files world_midline reviews_path = Inr midline_content"
    by (simp add: world_midline_def)
  have c: "midline_content = midline_before @ default_delimiter @ midline_after"
    by (simp add: midline_content_def default_delimiter_def)
  have np: "list_all (\<lambda>k. \<not> prefix default_delimiter (drop k midline_content))
      [0..<length midline_before]"
    by code_simp
  then have np': "\<forall>k<length midline_before. \<not> prefix default_delimiter (drop k midline_content)"
    by (simp add: list_all_iff)
  have b: "py_split midline_after default_delimiter (-1) = Inr [midline_after]"
    by code_simp
  have ne: "filter (\<lambda>blob. blob \<noteq> []) (map strip [midline_before, midline_after])
      = [strip midline_before, strip midline_after]"
    by code_simp
  from read_reviews_splits_at_every_delimiter [OF d f] obtain pieces where
    sp: "py_split midline_content default_delimiter (-1) = Inr pieces"
    and rr: "read_reviews world_midline reviews_path default_delimiter
        = Inr (filter (\<lambda>blob. blob \<noteq> []) (map strip pieces))"
    and nb: "\<forall>blob\<in>set (filter (\<lambda>blob. blob \<noteq> []) (map strip pieces)).
        \<not> sublist default_delimiter blob"
    and fo: "\<forall>a b. midline_content = a @ default_delimiter @ b
             \<and> (\<forall>k<length a. \<not> prefix default_delimiter (drop k midline_content))
           \<longrightarrow> (\<exists>rest. py_split b default_delimiter (-1) = Inr rest \<and> pieces = a # rest)"
    by blast
  from fo c np' b have p: "pieces = [midline_before, midline_after]"
    by (metis sum.inject(2))
  from nb have nb': "list_all (\<lambda>blob. \<not> sublist default_delimiter blob)
      [strip midline_before, strip midline_after]"
    unfolding p ne list_all_iff .
  from d f c np sp rr nb' show ?thesis
    unfolding p ne by blast
qed

end
